theory Spec2Isabelle
  imports Complex_Main "HOL-Library.Word" "HOL-Library.Log_Nat"
begin

section \<open>Data model\<close>

text \<open>
  A browser \<^verbatim>\<open>File\<close>: its name, its declared MIME type and its bytes. The property
  \<^verbatim>\<open>file.size\<close> is the number of bytes. Two files are byte-identical when their
  \<open>content\<close> is equal; the assignment \<^verbatim>\<open>compressedFile = file\<close> of the source makes
  the two the same object, hence equal as records.
\<close>

type_synonym byte = "8 word"

record File =
  name :: string
  type :: string
  content :: "byte list"

definition file_size :: "File \<Rightarrow> nat" where
  "file_size f = length (content f)"

text \<open>
  The options object handed to \<^verbatim>\<open>imageCompression\<close>. A JavaScript object literal has
  the keys it is written with: the three keys both variants write are plain fields, a key
  that only one variant writes is \<open>None\<close> in the other. Numbers are JavaScript doubles in
  the source; the options are modelled with exact rationals.
\<close>

record options =
  maxSizeMB :: rat
  maxWidthOrHeight :: nat
  useWebWorker :: bool
  initialQuality :: "rat option"
  alwaysKeepResolution :: "bool option"
  preserveExif :: "bool option"
  skipCompression :: "bool option"
  quality :: "rat option"

text \<open>
  What awaiting a promise can give: a value, a thrown error, or nothing at all when the
  promise never settles.
\<close>

datatype error = Error string

datatype 'a settle = Resolved 'a | Rejected error | Pending

text \<open>
  The browser and the library \<^verbatim>\<open>browser-image-compression\<close> are not part of the
  repository; the pipeline takes them as parameters. \<open>loadImage f\<close> is the decoded
  \<^verbatim>\<open>(img.width, img.height)\<close> once \<^verbatim>\<open>img.onload\<close> has fired, and \<open>None\<close> when it never
  fires (the source registers no \<^verbatim>\<open>onerror\<close>, so the awaited promise then stays pending).
  \<open>imageCompression f opts\<close> is what \<^verbatim>\<open>await imageCompression(file, options)\<close> gives.
\<close>

record env =
  loadImage :: "File \<Rightarrow> (nat \<times> nat) option"
  imageCompression :: "File \<Rightarrow> options \<Rightarrow> File settle"

text \<open>
  \<^verbatim>\<open>URL.createObjectURL(blob)\<close>: a reference to the blob. The text of the URL string is
  not modelled.
\<close>

datatype url = ObjectURL File

text \<open>
  The \<^verbatim>\<open>stats\<close> object of a result. Each field is a string in the source, a decimal
  numeral followed by \<^verbatim>\<open>MB\<close> or \<^verbatim>\<open>%\<close>; the model keeps the rational that the numeral
  denotes. The ratio of an empty file is \<^verbatim>\<open>0 / 0\<close>, printed as \<^verbatim>\<open>NaN%\<close>: that is \<open>None\<close>.
\<close>

record stats =
  originalSize :: rat
  compressedSize :: rat
  compressionRatio :: "rat option"

record result =
  url :: url
  "file" :: File
  originalName :: string
  stats :: "stats option"

section \<open>Number formatting\<close>

text \<open>
  \<^verbatim>\<open>x.toFixed(d)\<close>: the sign is split off, then the integer \<open>n\<close> with \<open>n / 10^d\<close>
  nearest to \<open>x\<close> is taken, the larger one on a tie.
\<close>

definition toFixed :: "nat \<Rightarrow> rat \<Rightarrow> rat" where
  "toFixed d x =
     (if x < 0 then - (of_int \<lfloor>- x * 10 ^ d + 1 / 2\<rfloor> / 10 ^ d)
      else of_int \<lfloor>x * 10 ^ d + 1 / 2\<rfloor> / 10 ^ d)"

text \<open>
  Arithmetic on JavaScript numbers gives the double nearest to the exact result, ties to
  the even significand. \<open>binary64 x\<close> is that double for a rational \<open>x\<close>: \<open>expo\<close> is
  the binary exponent of a positive rational, the significand has 53 bits. The range of
  the exponent is not bounded here, which agrees with IEEE 754 from \<open>2^-1022\<close> up to
  \<open>2^1024\<close>; every number of the pipeline other than zero lies in between.
\<close>

definition expo :: "rat \<Rightarrow> int" where
  "expo x =
     (let (p, q) = quotient_of x; k = bitlen p - bitlen q
      in if 2 powi k \<le> x then k else k - 1)"

definition round_even :: "rat \<Rightarrow> int" where
  "round_even m =
     (let n = \<lfloor>m\<rfloor>; r = m - of_int n
      in if r < 1 / 2 then n else if 1 / 2 < r then n + 1 else if even n then n else n + 1)"

definition binary64_pos :: "rat \<Rightarrow> rat" where
  "binary64_pos y = (let u = 2 powi (expo y - 52) in of_int (round_even (y / u)) * u)"

definition binary64 :: "rat \<Rightarrow> rat" where
  "binary64 x = (if x = 0 then 0 else if x < 0 then - binary64_pos (- x) else binary64_pos x)"

section \<open>The per-image pipeline of the first variant (unnamed/part_000)\<close>

text \<open>Lines 98 to 126 of \<^verbatim>\<open>handleCompress\<close>: the options derived for one file.\<close>

definition buildOptions :: "int \<Rightarrow> File \<Rightarrow> nat \<times> nat \<Rightarrow> options" where
  "buildOptions compressionValue f img =
     (let originalSizeMB = of_nat (file_size f) / (1024 * 1024);
          targetSizeMB = max (3 / 10) (originalSizeMB * (1 - of_int compressionValue / 100));
          maxDimension = max (fst img) (snd img);
          maxWH = (if maxDimension > 4000 then 4000
                   else if maxDimension > 2000 then 2000
                   else maxDimension)
      in \<lparr> maxSizeMB = targetSizeMB,
           maxWidthOrHeight = maxWH,
           useWebWorker = True,
           initialQuality = Some (9 / 10),
           alwaysKeepResolution = Some True,
           preserveExif = Some True,
           skipCompression = Some (file_size f < 100 * 1024),
           quality = None \<rparr>)"

text \<open>
  Lines 137 to 140: the three figures shown for a result. A file size is a whole number
  below \<open>2^53\<close>, so the sizes, their difference and their quotients by \<open>1024 * 1024\<close>
  are doubles as they stand; the division by the size and the multiplication by 100 of
  line 138 each round to a double.
\<close>

definition computeStats :: "File \<Rightarrow> File \<Rightarrow> stats" where
  "computeStats f compressedFile =
     \<lparr> originalSize = toFixed 2 (of_nat (file_size f) / (1024 * 1024)),
       compressedSize = toFixed 2 (of_nat (file_size compressedFile) / (1024 * 1024)),
       compressionRatio =
         (if file_size f = 0 then None
          else Some (toFixed 1
                 (binary64 (binary64 ((of_nat (file_size f) - of_nat (file_size compressedFile))
                    / of_nat (file_size f)) * 100)))) \<rparr>"

text \<open>
  The body of the \<^verbatim>\<open>async (file) => ...\<close> callback, lines 96 to 152. The callback waits
  for the \<^verbatim>\<open>load\<close> event of the image, then calls the library, for every file; a larger
  answer is replaced by the original. The object URL made for the decoding is revoked
  at once and leaves no trace in the result.
\<close>

definition compressOne :: "env \<Rightarrow> int \<Rightarrow> File \<Rightarrow> result settle" where
  "compressOne e compressionValue f =
     (case loadImage e f of
        None \<Rightarrow> Pending
      | Some img \<Rightarrow>
          (case imageCompression e f (buildOptions compressionValue f img) of
             Pending \<Rightarrow> Pending
           | Rejected err \<Rightarrow> Rejected err
           | Resolved c \<Rightarrow>
               (let compressedFile = (if file_size c > file_size f then f else c)
                in Resolved \<lparr> url = ObjectURL compressedFile,
                              file = compressedFile,
                              originalName = name f,
                              stats = Some (computeStats f compressedFile) \<rparr>)))"

section \<open>The per-image pipeline of the second variant (src/App.js)\<close>

text \<open>Lines 97 to 102: the options object.\<close>

definition buildOptionsApp :: "int \<Rightarrow> File \<Rightarrow> options" where
  "buildOptionsApp compressionValue f =
     \<lparr> maxSizeMB = max 1 (of_nat (file_size f) / (1024 * 1024)
                              * (1 - of_int compressionValue / 100)),
       maxWidthOrHeight = 1920,
       useWebWorker = True,
       initialQuality = None,
       alwaysKeepResolution = None,
       preserveExif = None,
       skipCompression = None,
       quality = Some ((100 - of_int compressionValue) / 100) \<rparr>"

text \<open>Lines 96 to 110: no decode step, no fallback and no stats.\<close>

definition compressOneApp :: "env \<Rightarrow> int \<Rightarrow> File \<Rightarrow> result settle" where
  "compressOneApp e compressionValue f =
     (case imageCompression e f (buildOptionsApp compressionValue f) of
        Pending \<Rightarrow> Pending
      | Rejected err \<Rightarrow> Rejected err
      | Resolved compressedFile \<Rightarrow>
          Resolved \<lparr> url = ObjectURL compressedFile,
                     file = compressedFile,
                     originalName = name f,
                     stats = None \<rparr>)"

section \<open>The target size as the specification words it\<close>

text \<open>
  The formula of the specification, \<^verbatim>\<open>max(floor_size, originalSizeMB * (1 - strength/100))\<close>,
  with the floor as a parameter.
\<close>

definition spec_targetSize :: "rat \<Rightarrow> rat \<Rightarrow> int \<Rightarrow> rat" where
  "spec_targetSize floor_size originalSizeMB strength =
     max floor_size (originalSizeMB * (1 - of_int strength / 100))"

section \<open>The download name\<close>

text \<open>
  \<^verbatim>\<open>name.replace(/\.[^/.]+$/, '')\<close>: the leftmost place where a dot is followed, up to
  the end of the string, by one or more characters that are neither a slash nor a dot is
  cut off; a string with no such place is returned as it is.
\<close>

fun replace_ext :: "string \<Rightarrow> string" where
  "replace_ext [] = []"
| "replace_ext (c # cs) =
     (if c = CHR ''.'' \<and> cs \<noteq> [] \<and> list_all (\<lambda>d. d \<noteq> CHR ''/'' \<and> d \<noteq> CHR ''.'') cs
      then [] else c # replace_ext cs)"

text \<open>\<^verbatim>\<open>name.split('.')\<close>: the pieces between the dots, never an empty array.\<close>

fun split_dot :: "string \<Rightarrow> string list" where
  "split_dot [] = [[]]"
| "split_dot (c # cs) =
     (if c = CHR ''.'' then [] # split_dot cs
      else (c # hd (split_dot cs)) # tl (split_dot cs))"

text \<open>
  Line 277 (line 223 in src/App.js): the \<^verbatim>\<open>download\<close> attribute of the link,
  \<^verbatim>\<open>`${name.replace(...)}_jelly_image_compress.${name.split('.').pop()}`\<close>.
\<close>

definition downloadName :: "string \<Rightarrow> string" where
  "downloadName n = replace_ext n @ ''_jelly_image_compress'' @ ''.'' @ last (split_dot n)"

section \<open>The component state and its handlers\<close>

text \<open>
  The six \<^verbatim>\<open>useState\<close> cells of \<^verbatim>\<open>App\<close>, the calls of \<^verbatim>\<open>console.error\<close> made so far,
  and the promise a running \<^verbatim>\<open>handleCompress\<close> is suspended on (what
  \<^verbatim>\<open>Promise.all\<close> will give it, \<open>None\<close> when no call is suspended).
\<close>

record state =
  selectedFiles :: "File list"
  previewUrls :: "url list"
  compressedUrls :: "result list"
  compressionValue :: int
  isCompressing :: bool
  selectedChip :: "int option"
  console :: "error list"
  awaited :: "result list settle option"

text \<open>
  The preset values of \<^verbatim>\<open>compressionOptions\<close>, first variant and second variant. The
  labels are display text and are left out.
\<close>

definition compressionOptions :: "int list" where
  "compressionOptions = [10, 20, 30, 40]"

definition compressionOptionsApp :: "int list" where
  "compressionOptionsApp = [90, 75, 50, 25]"

definition initialState :: state where
  "initialState =
     \<lparr> selectedFiles = [], previewUrls = [], compressedUrls = [], compressionValue = 10,
       isCompressing = False, selectedChip = None, console = [], awaited = None \<rparr>"

definition initialStateApp :: state where
  "initialStateApp = initialState \<lparr> compressionValue := 50 \<rparr>"

text \<open>Lines 82 to 89.\<close>

definition handleFileSelect :: "File list \<Rightarrow> state \<Rightarrow> state" where
  "handleFileSelect files s =
     (if length files > 0
      then s \<lparr> selectedFiles := files,
               previewUrls := map ObjectURL files,
               compressedUrls := [] \<rparr>
      else s)"

text \<open>Lines 68 to 76.\<close>

definition handleDrop :: "File list \<Rightarrow> state \<Rightarrow> state" where
  "handleDrop dropped s =
     (let files = filter (\<lambda>f. take 6 (type f) = ''image/'') dropped
      in if length files > 0 then handleFileSelect files s else s)"

text \<open>
  \<^verbatim>\<open>Promise.all\<close> over promises that each settle at some time: it rejects with the error
  of the rejection that comes first in time (the earlier index on a tie), whatever the
  others do; with no rejection it waits for every promise and gives the values in the
  order of the array; it stays pending when one of them never settles.
\<close>

fun rejections :: "(nat \<times> 'a settle) list \<Rightarrow> (nat \<times> error) list" where
  "rejections [] = []"
| "rejections ((t, Rejected err) # ps) = (t, err) # rejections ps"
| "rejections ((t, Resolved v) # ps) = rejections ps"
| "rejections ((t, Pending) # ps) = rejections ps"

fun earliest :: "nat \<times> error \<Rightarrow> (nat \<times> error) list \<Rightarrow> error" where
  "earliest (t, err) [] = err"
| "earliest (t, err) ((t', err') # rs) =
     (if t' < t then earliest (t', err') rs else earliest (t, err) rs)"

fun resolved_values :: "(nat \<times> 'a settle) list \<Rightarrow> 'a list option" where
  "resolved_values [] = Some []"
| "resolved_values ((t, Resolved v) # ps) = map_option ((#) v) (resolved_values ps)"
| "resolved_values ((t, Rejected err) # ps) = None"
| "resolved_values ((t, Pending) # ps) = None"

definition promise_all :: "(nat \<times> 'a settle) list \<Rightarrow> 'a list settle" where
  "promise_all ps =
     (case rejections ps of
        r # rs \<Rightarrow> Rejected (earliest r rs)
      | [] \<Rightarrow> (case resolved_values ps of Some vs \<Rightarrow> Resolved vs | None \<Rightarrow> Pending))"

text \<open>
  \<^verbatim>\<open>handleCompress\<close> up to its \<^verbatim>\<open>await Promise.all(...)\<close>. The per-image callback is
  the parameter \<open>pipe\<close>, run on the files and the strength of the render that the click
  belongs to; \<open>lat i\<close> is the time at which the promise of file \<open>i\<close> settles.
\<close>

definition compressPromises ::
    "(int \<Rightarrow> File \<Rightarrow> result settle) \<Rightarrow> (nat \<Rightarrow> nat) \<Rightarrow> int \<Rightarrow> File list
       \<Rightarrow> (nat \<times> result settle) list" where
  "compressPromises pipe lat strength files =
     map (\<lambda>(i, f). (lat i, pipe strength f)) (enumerate 0 files)"

definition handleCompress ::
    "(int \<Rightarrow> File \<Rightarrow> result settle) \<Rightarrow> (nat \<Rightarrow> nat) \<Rightarrow> state \<Rightarrow> state" where
  "handleCompress pipe lat s =
     (if length (selectedFiles s) = 0 then s
      else s \<lparr> isCompressing := True,
               awaited := Some (promise_all
                 (compressPromises pipe lat (compressionValue s) (selectedFiles s))) \<rparr>)"

text \<open>
  The rest of \<^verbatim>\<open>handleCompress\<close>, run when the awaited promise settles: the results are
  stored, or the error is caught and logged; \<^verbatim>\<open>finally\<close> clears the flag. A promise that
  never settles never resumes the call.
\<close>

definition handleCompress_resume :: "state \<Rightarrow> state" where
  "handleCompress_resume s =
     (case awaited s of
        None \<Rightarrow> s
      | Some Pending \<Rightarrow> s
      | Some (Resolved compressedResults) \<Rightarrow>
          s \<lparr> compressedUrls := compressedResults, isCompressing := False, awaited := None \<rparr>
      | Some (Rejected err) \<Rightarrow>
          s \<lparr> console := console s @ [err], isCompressing := False, awaited := None \<rparr>)"

text \<open>Lines 163 to 171 (121 to 129 in src/App.js).\<close>

definition handleChipClick :: "int \<Rightarrow> state \<Rightarrow> state" where
  "handleChipClick v s = s \<lparr> selectedChip := Some v, compressionValue := v \<rparr>"

definition handleSliderChange :: "int \<Rightarrow> state \<Rightarrow> state" where
  "handleSliderChange newValue s = s \<lparr> compressionValue := newValue, selectedChip := None \<rparr>"

text \<open>
  A chip is drawn filled when \<^verbatim>\<open>selectedChip === option.value\<close>.
\<close>

definition chipActive :: "state \<Rightarrow> int \<Rightarrow> bool" where
  "chipActive s v = (selectedChip s = Some v)"

text \<open>
  The card of file \<open>i\<close> shows \<^verbatim>\<open>compressedUrls[index]\<close> when that entry exists.
\<close>

definition shownResult :: "state \<Rightarrow> nat \<Rightarrow> result option" where
  "shownResult s i =
     (if i < length (selectedFiles s) \<and> i < length (compressedUrls s)
      then Some (compressedUrls s ! i) else None)"

text \<open>
  What the user and the event loop can do. The controls below the drop zone exist only
  while \<^verbatim>\<open>previewUrls.length > 0\<close>; the button is disabled while \<^verbatim>\<open>isCompressing\<close>; the
  slider gives whole numbers from 1 to 99; a chip gives the value of its preset. The file
  input and the drop zone are always there.
\<close>

datatype event =
    SelectFiles "File list"
  | DropFiles "File list"
  | ClickCompress "nat \<Rightarrow> nat"
  | ClickChip int
  | MoveSlider int
  | BatchSettles

fun step :: "int list \<Rightarrow> (int \<Rightarrow> File \<Rightarrow> result settle) \<Rightarrow> state \<Rightarrow> event \<Rightarrow> state" where
  "step presets pipe s (SelectFiles files) = handleFileSelect files s"
| "step presets pipe s (DropFiles files) = handleDrop files s"
| "step presets pipe s (ClickCompress lat) =
     (if previewUrls s = [] \<or> isCompressing s then s else handleCompress pipe lat s)"
| "step presets pipe s (ClickChip v) =
     (if previewUrls s = [] \<or> v \<notin> set presets then s else handleChipClick v s)"
| "step presets pipe s (MoveSlider v) =
     (if previewUrls s = [] \<or> v < 1 \<or> 99 < v then s else handleSliderChange v s)"
| "step presets pipe s BatchSettles = handleCompress_resume s"

definition run :: "int list \<Rightarrow> (int \<Rightarrow> File \<Rightarrow> result settle) \<Rightarrow> state \<Rightarrow> event list \<Rightarrow> state" where
  "run presets pipe s evs = foldl (step presets pipe) s evs"

section \<open>Concrete files, libraries and sessions\<close>

text \<open>The value a settled promise resolved to, if it did.\<close>

fun resolved :: "'a settle \<Rightarrow> 'a option" where
  "resolved (Resolved v) = Some v"
| "resolved (Rejected err) = None"
| "resolved Pending = None"

text \<open>
  Three files: a JPEG of 200 KB, a PNG of 50 KB and a PNG of exactly 100 KB, all of
  zero bytes as far as the model cares.
\<close>

definition photo :: File where
  "photo = \<lparr> name = ''photo.jpg'', type = ''image/jpeg'', content = replicate 204800 0 \<rparr>"

definition icon :: File where
  "icon = \<lparr> name = ''icon.png'', type = ''image/png'', content = replicate 51200 0 \<rparr>"

definition scan :: File where
  "scan = \<lparr> name = ''scan.png'', type = ''image/png'', content = replicate 102400 0 \<rparr>"

text \<open>
  A library that answers every call with \<open>n\<close> bytes of its own and acts on no option
  but the ones it knows; \<open>skipCompression\<close> is not among them.
\<close>

definition recode :: "nat \<Rightarrow> File \<Rightarrow> options \<Rightarrow> File settle" where
  "recode n f opts = Resolved (f \<lparr> content := replicate n 1 \<rparr>)"

text \<open>A browser that decodes every file to 1600 by 1200 pixels, with a given library.\<close>

definition browser :: "(File \<Rightarrow> options \<Rightarrow> File settle) \<Rightarrow> env" where
  "browser lib = \<lparr> loadImage = (\<lambda>f. Some (1600, 1200)), imageCompression = lib \<rparr>"

text \<open>
  A file that the browser cannot decode, and a browser in which the \<^verbatim>\<open>load\<close> event of
  a given file never comes.
\<close>

definition broken :: File where
  "broken = \<lparr> name = ''broken.jpg'', type = ''image/jpeg'', content = replicate 204800 255 \<rparr>"

definition undecodable :: "File \<Rightarrow> env \<Rightarrow> env" where
  "undecodable f e = e \<lparr> loadImage := (loadImage e) (f := None) \<rparr>"

text \<open>A library that rejects every file that is not a JPEG.\<close>

definition jpeg_only :: "File \<Rightarrow> options \<Rightarrow> File settle" where
  "jpeg_only f opts =
     (if type f = ''image/jpeg'' then recode 1000 f opts else Rejected (Error ''unsupported''))"

text \<open>
  Three sessions. In the first the user picks two files, starts the batch, picks another
  file while the batch runs, and the batch settles. In the second the user picks a good
  and a broken file, starts the batch, and the event loop gets its turn. In the third the
  user picks a JPEG and a PNG, starts the batch, and the batch settles.
\<close>

definition reselect_in_flight :: "event list" where
  "reselect_in_flight =
     [SelectFiles [photo, scan], ClickCompress id, SelectFiles [icon], BatchSettles]"

definition broken_batch :: "event list" where
  "broken_batch = [SelectFiles [photo, broken], ClickCompress id, BatchSettles]"

definition rejected_batch :: "event list" where
  "rejected_batch = [SelectFiles [photo, icon], ClickCompress id, BatchSettles]"

text \<open>
  The ratio a reader recomputes from the two sizes that are shown, as the specification
  words its tolerance check.
\<close>

definition spec_recomputedRatio :: "stats \<Rightarrow> rat" where
  "spec_recomputedRatio st = (originalSize st - compressedSize st) / originalSize st * 100"

text \<open>
  A session is calm when no file is picked or dropped while a call of
  \<^verbatim>\<open>handleCompress\<close> is suspended.
\<close>

fun selects :: "event \<Rightarrow> bool" where
  "selects (SelectFiles files) = True"
| "selects (DropFiles files) = True"
| "selects (ClickCompress lat) = False"
| "selects (ClickChip v) = False"
| "selects (MoveSlider v) = False"
| "selects BatchSettles = False"

fun calm :: "int list \<Rightarrow> (int \<Rightarrow> File \<Rightarrow> result settle) \<Rightarrow> state \<Rightarrow> event list \<Rightarrow> bool" where
  "calm presets pipe s [] = True"
| "calm presets pipe s (ev # evs) =
     ((awaited s = None \<or> \<not> selects ev) \<and> calm presets pipe (step presets pipe s ev) evs)"

text \<open>
  A result list is produced from a list of files when it is what the callback resolved
  to on these files, one by one; the state is aligned when the results shown, and the
  results a suspended call is about to store, are produced from the current selection.
\<close>

definition producedFrom ::
    "(int \<Rightarrow> File \<Rightarrow> result settle) \<Rightarrow> File list \<Rightarrow> result list \<Rightarrow> bool" where
  "producedFrom pipe files rs = (\<exists>strength. map (pipe strength) files = map Resolved rs)"

definition alignedInv :: "(int \<Rightarrow> File \<Rightarrow> result settle) \<Rightarrow> state \<Rightarrow> bool" where
  "alignedInv pipe s =
     ((compressedUrls s = [] \<or> producedFrom pipe (selectedFiles s) (compressedUrls s))
      \<and> (\<forall>rs. awaited s = Some (Resolved rs) \<longrightarrow> producedFrom pipe (selectedFiles s) rs))"

section \<open>Parameter derivation\<close>

text \<open>
  C2. In both variants the target size handed to the library is the formula of the
  specification, \<open>max floor_size (originalSizeMB * (1 - strength / 100))\<close>, at the size of
  the file in MB (bytes divided by \<open>1024 * 1024\<close>): with the floor \<open>0.3\<close> in
  unnamed/part_000 and the floor \<open>1\<close> in src/App.js. This holds for every strength, in
  particular from 1 to 99.
\<close>

theorem C2_target_size:
  "maxSizeMB (buildOptions strength f img)
     = spec_targetSize (3 / 10) (of_nat (file_size f) / (1024 * 1024)) strength
   \<and> maxSizeMB (buildOptionsApp strength f)
     = spec_targetSize 1 (of_nat (file_size f) / (1024 * 1024)) strength"
  by (simp add: buildOptions_def buildOptionsApp_def spec_targetSize_def Let_def)

text \<open>
  C4. The target maximum dimension of unnamed/part_000 is 4000 when the larger axis
  of the decoded image exceeds 4000, else 2000 when it exceeds 2000, else the larger
  axis itself; it is never above the larger axis.
\<close>

theorem C4_target_dimension:
  "maxWidthOrHeight (buildOptions strength f (w, h))
     = (if max w h > 4000 then 4000 else if max w h > 2000 then 2000 else max w h)
   \<and> maxWidthOrHeight (buildOptions strength f (w, h)) \<le> max w h"
  by (simp add: buildOptions_def Let_def)

section \<open>Rounding\<close>

lemma floor_rat_numeral [simp]:
  "\<lfloor>numeral a / numeral b :: rat\<rfloor> = numeral a div numeral b"
  by (metis floor_divide_of_int_eq of_int_numeral)

lemma toFixed_mono: "x \<le> y \<Longrightarrow> toFixed d x \<le> toFixed d y"
proof -
  assume xy: "x \<le> y"
  have p: "(0::rat) < 10 ^ d" by simp
  have fl: "\<And>a b::rat. a \<le> b \<Longrightarrow> (of_int \<lfloor>a * 10 ^ d + 1 / 2\<rfloor> :: rat) / 10 ^ d \<le> of_int \<lfloor>b * 10 ^ d + 1 / 2\<rfloor> / 10 ^ d"
    by (intro divide_right_mono) (auto intro!: floor_mono mult_right_mono)
  have nn: "\<And>a::rat. 0 \<le> a \<Longrightarrow> (0::rat) \<le> of_int \<lfloor>a * 10 ^ d + 1 / 2\<rfloor> / 10 ^ d"
    by (intro divide_nonneg_nonneg) auto
  show ?thesis
  proof (cases "x < 0")
    case xn: True
    show ?thesis
    proof (cases "y < 0")
      case True
      have "- y \<le> - x" using xy by simp
      from fl[OF this] show ?thesis using xn True by (simp add: toFixed_def)
    next
      case False
      have a: "0 \<le> rat_of_int \<lfloor>- x * 10 ^ d + 1 / 2\<rfloor> / 10 ^ d"
        using xn by (intro nn) simp
      have b: "0 \<le> rat_of_int \<lfloor>y * 10 ^ d + 1 / 2\<rfloor> / 10 ^ d"
        using False by (intro nn) simp
      have "toFixed d x \<le> 0" using a xn by (simp add: toFixed_def)
      moreover have "0 \<le> toFixed d y" using b False by (simp add: toFixed_def)
      ultimately show ?thesis by simp
    qed
  next
    case False
    then have "\<not> y < 0" using xy by simp
    with False fl[OF xy] show ?thesis by (simp add: toFixed_def)
  qed
qed

lemma toFixed_near: "\<bar>toFixed d x - x\<bar> \<le> 1 / (2 * 10 ^ d)"
proof -
  have p: "(0::rat) < 10 ^ d" by simp
  have key: "\<And>a::rat. \<bar>of_int \<lfloor>a * 10 ^ d + 1 / 2\<rfloor> / 10 ^ d - a\<bar> \<le> 1 / (2 * 10 ^ d)"
  proof -
    fix a :: rat
    define n where "n = \<lfloor>a * 10 ^ d + 1 / 2\<rfloor>"
    have 1: "of_int n \<le> a * 10 ^ d + 1 / 2" unfolding n_def by (rule of_int_floor_le)
    have 2: "a * 10 ^ d + 1 / 2 < of_int n + 1" unfolding n_def using floor_correct[of "a * 10 ^ d + 1 / 2"] by simp
    have "\<bar>of_int n - a * 10 ^ d\<bar> \<le> 1 / 2" using 1 2 by linarith
    then have "\<bar>of_int n - a * 10 ^ d\<bar> / 10 ^ d \<le> (1 / 2) / 10 ^ d"
      by (intro divide_right_mono) auto
    moreover have "\<bar>of_int n - a * 10 ^ d\<bar> / 10 ^ d = \<bar>of_int n / 10 ^ d - a\<bar>"
    proof -
      have "of_int n / 10 ^ d - a = (of_int n - a * 10 ^ d) / 10 ^ d"
        by (simp add: diff_divide_distrib)
      then have "\<bar>of_int n / 10 ^ d - a\<bar> = \<bar>of_int n - a * 10 ^ d\<bar> / \<bar>10 ^ d :: rat\<bar>"
        by (simp only: abs_divide)
      then show ?thesis by simp
    qed
    ultimately show "\<bar>of_int n / 10 ^ d - a\<bar> \<le> 1 / (2 * 10 ^ d)" by simp
  qed
  show ?thesis
  proof (cases "x < 0")
    case True
    have "\<bar>toFixed d x - x\<bar> = \<bar>of_int \<lfloor>- x * 10 ^ d + 1 / 2\<rfloor> / 10 ^ d - (- x)\<bar>"
      using True by (simp add: toFixed_def abs_minus_commute)
    with key[of "- x"] show ?thesis by simp
  next
    case False
    with key[of x] show ?thesis by (simp add: toFixed_def)
  qed
qed

lemma toFixed_nonneg: "0 \<le> x \<Longrightarrow> 0 \<le> toFixed d x"
proof -
  assume x: "0 \<le> x"
  then have "0 \<le> x * 10 ^ d + 1 / 2" by simp
  then have "0 \<le> \<lfloor>x * 10 ^ d + 1 / 2\<rfloor>" by (simp only: zero_le_floor)
  then have "(0::rat) \<le> of_int \<lfloor>x * 10 ^ d + 1 / 2\<rfloor> / 10 ^ d" by simp
  with x show ?thesis by (simp add: toFixed_def)
qed

lemma toFixed_tenths: "\<exists>k::int. toFixed 1 x = of_int k / 10"
proof (cases "x < 0")
  case True
  then have "toFixed 1 x = of_int (- \<lfloor>- x * 10 + 1 / 2\<rfloor>) / 10" by (simp add: toFixed_def)
  then show ?thesis by blast
next
  case False
  then have "toFixed 1 x = of_int \<lfloor>x * 10 + 1 / 2\<rfloor> / 10" by (simp add: toFixed_def)
  then show ?thesis by blast
qed

section \<open>Doubles\<close>

text \<open>The exponent brackets its argument, and is the only integer that does.\<close>

lemma bitlen_powi:
  assumes "0 < n"
  shows "(2::rat) powi (bitlen n - 1) \<le> of_int n \<and> (of_int n :: rat) < 2 powi bitlen n"
proof -
  from assms have b1: "1 \<le> bitlen n" by (auto simp: bitlen_alt_def)
  from bitlen_bounds [OF assms]
  have lo: "2 ^ nat (bitlen n - 1) \<le> n" and hi: "n < 2 ^ nat (bitlen n)" by auto
  have "(of_int (2 ^ nat (bitlen n - 1)) :: rat) \<le> of_int n" using lo by (simp only: of_int_le_iff)
  then have 1: "(2::rat) powi (bitlen n - 1) \<le> of_int n" using b1 by (simp add: power_int_def)
  have "(of_int n :: rat) < of_int (2 ^ nat (bitlen n))" using hi by (simp only: of_int_less_iff)
  then have 2: "(of_int n :: rat) < 2 powi bitlen n" using b1 by (simp add: power_int_def)
  from 1 2 show ?thesis ..
qed

lemma expo_bounds:
  assumes "0 < x"
  shows "2 powi expo x \<le> x \<and> x < 2 powi (expo x + 1)"
proof -
  obtain p q where pq: "quotient_of x = (p, q)" by (cases "quotient_of x")
  have q: "0 < q" using pq by (rule quotient_of_denom_pos)
  have x: "x = of_int p / of_int q" using pq by (rule quotient_of_div)
  have p: "0 < p" using assms q x by (simp add: zero_less_divide_iff)
  define k where "k = bitlen p - bitlen q"
  from bitlen_powi [OF p] have plo: "(2::rat) powi (bitlen p - 1) \<le> of_int p"
    and phi: "(of_int p :: rat) < 2 powi bitlen p" by auto
  from bitlen_powi [OF q] have qlo: "(2::rat) powi (bitlen q - 1) \<le> of_int q"
    and qhi: "(of_int q :: rat) < 2 powi bitlen q" by auto
  have qpos: "(0::rat) < of_int q" using q by simp
  have up: "x < 2 powi (k + 1)"
  proof -
    have "of_int p < (2::rat) powi (k + 1) * 2 powi (bitlen q - 1)"
      using phi by (simp add: k_def flip: power_int_add)
    also have "\<dots> \<le> 2 powi (k + 1) * of_int q"
      using qlo by (intro mult_left_mono) simp_all
    finally show ?thesis using qpos by (simp add: x pos_divide_less_eq)
  qed
  have lo: "2 powi (k - 1) \<le> x"
  proof -
    have "(2::rat) powi (k - 1) * of_int q \<le> 2 powi (k - 1) * 2 powi bitlen q"
      using qhi by (intro mult_left_mono) simp_all
    also have "\<dots> = 2 powi (bitlen p - 1)"
      by (simp add: k_def flip: power_int_add)
    also have "\<dots> \<le> of_int p" by (rule plo)
    finally show ?thesis using qpos by (simp add: x pos_le_divide_eq)
  qed
  have e: "expo x = (if 2 powi k \<le> x then k else k - 1)"
    by (simp add: expo_def pq k_def Let_def)
  show ?thesis
  proof (cases "2 powi k \<le> x")
    case True
    with e up show ?thesis by simp
  next
    case False
    with e lo show ?thesis by simp
  qed
qed

lemma expo_eqI:
  assumes "2 powi e \<le> x" and "x < 2 powi (e + 1)"
  shows "expo x = e"
proof -
  have "(0::rat) < 2 powi e" by (rule zero_less_power_int) simp
  then have pos: "0 < x" using assms(1) by (rule less_le_trans)
  from expo_bounds [OF pos] have a: "2 powi expo x \<le> x" and b: "x < 2 powi (expo x + 1)" by auto
  have "(2::rat) powi expo x < 2 powi (e + 1)" using a assms(2) by simp
  then have 1: "expo x < e + 1"
    by (metis linorder_not_le one_le_numeral power_int_increasing)
  have "(2::rat) powi e < 2 powi (expo x + 1)" using b assms(1) by simp
  then have 2: "e < expo x + 1"
    by (metis linorder_not_le one_le_numeral power_int_increasing)
  from 1 2 show ?thesis by simp
qed

lemma round_even_near: "\<bar>of_int (round_even m) - m\<bar> \<le> 1 / 2"
proof -
  have 1: "of_int \<lfloor>m\<rfloor> \<le> m" by (rule of_int_floor_le)
  have 2: "m < of_int \<lfloor>m\<rfloor> + 1" using floor_correct [of m] by simp
  show ?thesis using 1 2 by (auto simp: round_even_def Let_def)
qed

text \<open>
  Rounding to a double moves a number by at most \<open>2^-53\<close> of its size, and leaves a
  number with a significand of 53 bits where it is.
\<close>

lemma binary64_pos_eval:
  assumes "2 powi e \<le> y" and "y < 2 powi (e + 1)"
  shows "binary64_pos y = of_int (round_even (y / 2 powi (e - 52))) * 2 powi (e - 52)"
  using expo_eqI [OF assms] by (simp add: binary64_pos_def Let_def)

lemma binary64_pos_error:
  assumes "0 < y"
  shows "\<bar>binary64_pos y - y\<bar> \<le> y / 2 ^ 53"
proof -
  define u :: rat where "u = 2 powi (expo y - 52)"
  have u: "0 < u" unfolding u_def by (rule zero_less_power_int) simp
  have b: "binary64_pos y = of_int (round_even (y / u)) * u"
    by (simp add: binary64_pos_def Let_def u_def)
  have "binary64_pos y - y = (of_int (round_even (y / u)) - y / u) * u"
    using u by (simp add: b algebra_simps)
  then have "\<bar>binary64_pos y - y\<bar> = \<bar>of_int (round_even (y / u)) - y / u\<bar> * u"
    using u by (simp add: abs_mult)
  also have "\<dots> \<le> (1 / 2) * u"
    using u round_even_near [of "y / u"] by (intro mult_right_mono) simp_all
  also have "(1 / 2) * u = 2 powi expo y / 2 ^ 53"
  proof -
    have "(2::rat) powi (expo y - 52) = 2 powi expo y / 2 powi 52"
      by (rule power_int_diff) simp
    then show ?thesis by (simp add: u_def)
  qed
  also have "\<dots> \<le> y / 2 ^ 53"
    using expo_bounds [OF assms] by (intro divide_right_mono) simp_all
  finally show ?thesis .
qed

lemma binary64_error: "\<bar>binary64 x - x\<bar> \<le> \<bar>x\<bar> / 2 ^ 53"
proof -
  consider "x = 0" | "x < 0" | "0 < x" by linarith
  then show ?thesis
  proof cases
    case 1
    then show ?thesis by (simp add: binary64_def)
  next
    case 2
    then have "0 < - x" by simp
    from binary64_pos_error [OF this] have "\<bar>binary64_pos (- x) + x\<bar> \<le> - x / 2 ^ 53" by simp
    moreover have "\<bar>binary64 x - x\<bar> = \<bar>binary64_pos (- x) + x\<bar>"
      using 2 by (simp add: binary64_def abs_minus_commute flip: abs_minus_cancel [of "binary64_pos (- x) + x"])
    ultimately show ?thesis using 2 by simp
  next
    case 3
    from binary64_pos_error [OF this] 3 show ?thesis by (simp add: binary64_def)
  qed
qed

lemma round_even_of_int [simp]: "round_even (of_int n) = n"
  by (simp add: round_even_def Let_def)

lemma binary64_pos_exact:
  assumes "0 < n" and "n < 2 ^ 53"
  shows "binary64_pos (of_int n * 2 powi j) = of_int n * 2 powi j"
proof -
  define y :: rat where "y = of_int n * 2 powi j"
  have pj: "(0::rat) < 2 powi j" by (rule zero_less_power_int) simp
  have y: "0 < y" using assms(1) pj by (simp add: y_def)
  define e where "e = expo y"
  from expo_bounds [OF y] have lo: "2 powi e \<le> y" by (simp add: e_def)
  have "(of_int n :: rat) < of_int (2 ^ 53)" using assms(2) by (simp only: of_int_less_iff)
  then have n53: "(of_int n :: rat) < 2 ^ 53" by simp
  have "y < 2 ^ 53 * 2 powi j"
    unfolding y_def using n53 pj by (rule mult_strict_right_mono)
  also have "\<dots> = 2 powi (53 + j)"
    using power_int_add [of "2::rat" 53 j] by simp
  finally have "(2::rat) powi e < 2 powi (53 + j)" using lo by simp
  then have "e < 53 + j" by (metis linorder_not_le one_le_numeral power_int_increasing)
  then obtain m where m: "j - (e - 52) = int m" using nonneg_int_cases [of "j - (e - 52)"] by auto
  have "y / 2 powi (e - 52) = of_int n * 2 powi (j - (e - 52))"
    by (simp add: y_def power_int_diff)
  also have "\<dots> = of_int (n * 2 ^ m)" by (simp add: m)
  finally have q: "y / 2 powi (e - 52) = of_int (n * 2 ^ m)" .
  have "binary64_pos y = of_int (n * 2 ^ m) * 2 powi (e - 52)"
    by (simp only: binary64_pos_def Let_def e_def [symmetric] q round_even_of_int)
  also have "\<dots> = y / 2 powi (e - 52) * 2 powi (e - 52)" by (simp only: q)
  also have "\<dots> = y" by simp
  finally show ?thesis by (simp add: y_def)
qed

lemma binary64_exact:
  "0 < n \<Longrightarrow> n < 2 ^ 53 \<Longrightarrow> binary64 (of_int n * 2 powi j) = of_int n * 2 powi j"
proof -
  assume n: "0 < n" "n < 2 ^ 53"
  have "(0::rat) < 2 powi j" by (rule zero_less_power_int) simp
  then have "(0::rat) < of_int n * 2 powi j" using n(1) by simp
  then show ?thesis using binary64_pos_exact [OF n] by (simp add: binary64_def)
qed

lemma binary64_eval:
  "2 powi e \<le> y \<Longrightarrow> y < 2 powi (e + 1) \<Longrightarrow>
     binary64 y = of_int (round_even (y / 2 powi (e - 52))) * 2 powi (e - 52)"
proof -
  assume a: "2 powi e \<le> y" "y < 2 powi (e + 1)"
  have "(0::rat) < 2 powi e" by (rule zero_less_power_int) simp
  then have "0 < y" using a(1) by (rule less_le_trans)
  then show ?thesis using binary64_pos_eval [OF a] by (simp add: binary64_def)
qed

section \<open>The ratio in doubles\<close>

text \<open>
  The double of line 138 is within \<open>201 / 2^53\<close> of the exact ratio. A numeral with one
  decimal that is within \<open>0.05\<close> of that double is within \<open>0.05\<close> of the exact ratio too,
  for a file below \<open>2^40\<close> bytes: the exact ratio is a fraction over the file size and
  cannot come that close to a tie without being one. The ratio recomputed from two
  sizes rounded to two decimals is within \<open>1 / A\<close> of the exact ratio, \<open>A\<close> the original
  size in MB.
\<close>

lemma abs_scale_100: "\<bar>u * 100 - v * 100\<bar> = \<bar>u - v\<bar> * (100::rat)"
proof -
  have "u * 100 - v * 100 = (u - v) * 100" by (simp add: algebra_simps)
  then have "\<bar>u * 100 - v * 100\<bar> = \<bar>(u - v) * 100\<bar>" by (simp only:)
  also have "\<dots> = \<bar>u - v\<bar> * \<bar>100\<bar>" by (rule abs_mult)
  finally show ?thesis by simp
qed

lemma ratio_double_close:
  assumes "0 < a" and "b \<le> a"
  shows "\<bar>binary64 (binary64 ((of_nat a - of_nat b) / of_nat a) * 100)
           - (of_nat a - of_nat b) / of_nat a * 100\<bar> \<le> 201 / 2 ^ 53"
proof -
  define x :: rat where "x = (of_nat a - of_nat b) / of_nat a"
  define d1 where "d1 = binary64 x"
  define d where "d = binary64 (d1 * 100)"
  define eps :: rat where "eps = 1 / 2 ^ 53"
  have eps0: "0 \<le> eps" and eps1: "eps \<le> 1 / 100" by (simp_all add: eps_def)
  have x0: "0 \<le> x" using assms by (simp add: x_def)
  have x1: "x \<le> 1" using assms by (simp add: x_def)
  have err: "\<And>y. \<bar>binary64 y - y\<bar> \<le> \<bar>y\<bar> * eps"
    using binary64_error by (simp add: eps_def)
  have "\<bar>d1 - x\<bar> \<le> \<bar>x\<bar> * eps" unfolding d1_def by (rule err)
  also have "\<dots> \<le> 1 * eps" using x0 x1 eps0 by (intro mult_right_mono) simp_all
  finally have e1: "\<bar>d1 - x\<bar> \<le> eps" by simp
  then have d1b: "\<bar>d1\<bar> \<le> 1 + eps" using x0 x1 by linarith
  have "\<bar>d - d1 * 100\<bar> \<le> \<bar>d1 * 100\<bar> * eps" unfolding d_def by (rule err)
  also have "\<bar>d1 * 100\<bar> = \<bar>d1\<bar> * 100" by (simp add: abs_mult)
  also have "\<bar>d1\<bar> * 100 * eps \<le> (1 + eps) * 100 * eps"
    using d1b eps0 by (intro mult_right_mono) simp_all
  also have "\<dots> = 100 * eps + 100 * (eps * eps)" by (simp add: algebra_simps)
  also have "\<dots> \<le> 100 * eps + 100 * (1 / 100 * eps)"
    using eps0 eps1 by (intro add_left_mono mult_left_mono mult_right_mono) simp_all
  finally have e2: "\<bar>d - d1 * 100\<bar> \<le> 101 * eps" by simp
  have "\<bar>d1 * 100 - x * 100\<bar> = \<bar>d1 - x\<bar> * 100" by (rule abs_scale_100)
  with e1 have e3: "\<bar>d1 * 100 - x * 100\<bar> \<le> 100 * eps" by simp
  have "\<bar>d - x * 100\<bar> \<le> \<bar>d - d1 * 100\<bar> + \<bar>d1 * 100 - x * 100\<bar>" by linarith
  also have "\<dots> \<le> 101 * eps + 100 * eps" using e2 e3 by (rule add_mono)
  finally have "\<bar>d - x * 100\<bar> \<le> 201 * eps" by simp
  then show ?thesis by (simp add: d_def d1_def x_def eps_def)
qed

lemma tenths_near_ratio:
  fixes k :: int and a b :: nat and d :: rat
  assumes a: "0 < a" and big: "a < 2 ^ 40"
    and qd: "\<bar>of_int k / 10 - d\<bar> \<le> 1 / 20"
    and dr: "\<bar>d - (of_nat a - of_nat b) / of_nat a * 100\<bar> \<le> 201 / 2 ^ 53"
  shows "\<bar>of_int k / 10 - (of_nat a - of_nat b) / of_nat a * 100\<bar> \<le> (1 / 20 :: rat)"
proof (rule ccontr)
  define r :: rat where "r = (of_nat a - of_nat b) / of_nat a * 100"
  define N :: int where "N = 2 * int a * k - 2000 * (int a - int b)"
  assume "\<not> \<bar>of_int k / 10 - (of_nat a - of_nat b) / of_nat a * 100\<bar> \<le> (1 / 20 :: rat)"
  then have far: "1 / 20 < \<bar>of_int k / 10 - r\<bar>" unfolding r_def by linarith
  have apos: "(0::rat) < of_nat a" using a by simp
  have qr: "of_int k / 10 - r = of_int N / (20 * of_nat a)"
    using apos by (simp add: r_def N_def field_simps)
  have "\<bar>of_int k / 10 - r\<bar> = \<bar>of_int N\<bar> / (20 * of_nat a)"
    using apos by (simp add: qr)
  with far have "1 / 20 < \<bar>rat_of_int N\<bar> / (20 * of_nat a)" by simp
  then have "rat_of_nat a < \<bar>of_int N\<bar>" using apos by (simp add: field_simps)
  then have "rat_of_int (int a) < of_int \<bar>N\<bar>" by simp
  then have "int a < \<bar>N\<bar>" by (simp only: of_int_less_iff)
  then have "int a + 1 \<le> \<bar>N\<bar>" by simp
  then have "rat_of_int (int a + 1) \<le> of_int \<bar>N\<bar>" by (simp only: of_int_le_iff)
  then have "rat_of_nat a + 1 \<le> \<bar>of_int N\<bar>" by simp
  then have "(rat_of_nat a + 1) / (20 * of_nat a) \<le> \<bar>of_int N\<bar> / (20 * of_nat a)"
    using apos by (intro divide_right_mono) simp_all
  also have "\<dots> = \<bar>of_int k / 10 - r\<bar>" using apos by (simp add: qr)
  also have "\<dots> \<le> \<bar>of_int k / 10 - d\<bar> + \<bar>d - r\<bar>" by linarith
  also have "\<dots> \<le> 1 / 20 + 201 / 2 ^ 53" using qd dr by (simp add: r_def)
  finally have "(rat_of_nat a + 1) / (20 * of_nat a) \<le> 1 / 20 + 201 / 2 ^ 53" .
  moreover have "(rat_of_nat a + 1) / (20 * of_nat a) = 1 / 20 + 1 / (20 * of_nat a)"
    using apos by (simp add: field_simps)
  ultimately have "1 / (20 * rat_of_nat a) \<le> 201 / 2 ^ 53" by simp
  then have "2 ^ 53 \<le> 4020 * rat_of_nat a" using apos by (simp add: field_simps)
  moreover have "rat_of_nat a < 2 ^ 40"
  proof -
    have "rat_of_nat a < of_nat (2 ^ 40)" using big by (simp only: of_nat_less_iff)
    then show ?thesis by simp
  qed
  ultimately show False by simp
qed

lemma recomputed_close:
  fixes A B :: rat
  assumes A: "0 < A" and B: "0 \<le> B" "B \<le> A" and pos: "0 < toFixed 2 A"
  shows "\<bar>(toFixed 2 A - toFixed 2 B) / toFixed 2 A * 100 - (A - B) / A * 100\<bar> \<le> 1 / A"
proof -
  define A' where "A' = toFixed 2 A"
  define B' where "B' = toFixed 2 B"
  have nA: "\<bar>A' - A\<bar> \<le> 1 / 200" using toFixed_near [of 2 A] by (simp add: A'_def)
  have nB: "\<bar>B' - B\<bar> \<le> 1 / 200" using toFixed_near [of 2 B] by (simp add: B'_def)
  have B0: "0 \<le> B'" unfolding B'_def using B(1) by (rule toFixed_nonneg)
  have BA: "B' \<le> A'" unfolding A'_def B'_def using B(2) by (rule toFixed_mono)
  have A': "0 < A'" using pos by (simp add: A'_def)
  define X where "X = B * A' - B' * A"
  have "X = A' * (B - B') + B' * (A' - A)" by (simp add: X_def algebra_simps)
  then have "\<bar>X\<bar> = \<bar>A' * (B - B') + B' * (A' - A)\<bar>" by (simp only:)
  also have "\<dots> \<le> \<bar>A' * (B - B')\<bar> + \<bar>B' * (A' - A)\<bar>" by (rule abs_triangle_ineq)
  also have "\<dots> = A' * \<bar>B' - B\<bar> + B' * \<bar>A' - A\<bar>"
    using A' B0 by (simp add: abs_mult abs_minus_commute)
  also have "\<dots> \<le> A' * (1 / 200) + A' * (1 / 200)"
  proof (intro add_mono)
    show "A' * \<bar>B' - B\<bar> \<le> A' * (1 / 200)" using nB A' by (intro mult_left_mono) simp_all
    have "B' * \<bar>A' - A\<bar> \<le> B' * (1 / 200)" using nA B0 by (intro mult_left_mono) simp_all
    also have "\<dots> \<le> A' * (1 / 200)" using BA by simp
    finally show "B' * \<bar>A' - A\<bar> \<le> A' * (1 / 200)" .
  qed
  finally have key: "\<bar>X\<bar> \<le> A' / 100" by simp
  have AA: "0 < A * A'" using A A' by simp
  have "(A' - B') / A' * 100 - (A - B) / A * 100 = X / (A * A') * 100"
    using A A' by (simp add: X_def field_simps)
  then have "\<bar>(A' - B') / A' * 100 - (A - B) / A * 100\<bar> = \<bar>X / (A * A') * 100\<bar>"
    by (simp only:)
  also have "\<dots> = \<bar>X\<bar> / \<bar>A * A'\<bar> * \<bar>100\<bar>" by (simp only: abs_mult abs_divide)
  also have "\<dots> = \<bar>X\<bar> / (A * A') * 100" using AA by (simp only: abs_of_pos abs_numeral)
  also have "\<dots> \<le> (A' / 100) / (A * A') * 100"
    using key AA by (intro mult_right_mono divide_right_mono) simp_all
  also have "\<dots> = 1 / A" using A A' by simp
  finally show ?thesis by (simp add: A'_def B'_def)
qed

section \<open>The per-image result\<close>

lemma file_size_examples [simp]:
  "file_size photo = 204800" "file_size icon = 51200" "file_size scan = 102400"
  "file_size (f \<lparr> content := replicate n b \<rparr>) = n"
  by (simp_all add: file_size_def photo_def icon_def scan_def)

text \<open>
  C1, as the code has it. When the library resolves to a file \<open>c\<close>, the pipeline
  resolves too; its file is the input itself when \<open>c\<close> is strictly larger than the
  input and is \<open>c\<close> otherwise (an answer of the same size is kept). In every case the
  final size is at most the original size, in bytes and in the two figures reported.
\<close>

theorem C1_fallback:
  assumes "loadImage e f = Some img"
    and "imageCompression e f (buildOptions strength f img) = Resolved c"
  shows "\<exists>r. compressOne e strength f = Resolved r
           \<and> file r = (if file_size f < file_size c then f else c)
           \<and> file_size (file r) \<le> file_size f
           \<and> (\<exists>st. stats r = Some st \<and> compressedSize st \<le> originalSize st)"
proof -
  define out where "out = (if file_size f < file_size c then f else c)"
  have le: "file_size out \<le> file_size f"
    by (simp add: out_def)
  then have "rat_of_nat (file_size out) / (1024 * 1024) \<le> rat_of_nat (file_size f) / (1024 * 1024)"
    by (simp add: divide_right_mono)
  then have "compressedSize (computeStats f out) \<le> originalSize (computeStats f out)"
    by (simp add: computeStats_def toFixed_mono)
  moreover have "compressOne e strength f =
      Resolved \<lparr> url = ObjectURL out, file = out, originalName = name f,
                 stats = Some (computeStats f out) \<rparr>"
    using assms by (simp add: compressOne_def out_def Let_def)
  ultimately show ?thesis using le by (simp add: out_def)
qed

theorem C1_fallback_witness:
  "loadImage (browser (recode 300000)) photo = Some (1600, 1200)
   \<and> imageCompression (browser (recode 300000)) photo (buildOptions 10 photo (1600, 1200))
       = Resolved (photo \<lparr> content := replicate 300000 1 \<rparr>)
   \<and> (\<exists>r. compressOne (browser (recode 300000)) 10 photo = Resolved r
          \<and> file r = photo
          \<and> file_size (file r) \<le> file_size photo
          \<and> (\<exists>st. stats r = Some st \<and> compressedSize st \<le> originalSize st))"
proof -
  have a: "loadImage (browser (recode 300000)) photo = Some (1600, 1200)"
    by (simp add: browser_def)
  have b: "imageCompression (browser (recode 300000)) photo (buildOptions 10 photo (1600, 1200))
       = Resolved (photo \<lparr> content := replicate 300000 1 \<rparr>)"
    by (simp add: browser_def recode_def)
  show ?thesis using a b C1_fallback [OF a b] by simp
qed

text \<open>
  C1 as the claim words it fails when the answer has exactly the size of the input:
  the answer is not strictly smaller, and yet it is the result, with bytes that differ
  from the input.
\<close>

theorem C1_counterexample:
  "imageCompression (browser (recode 204800)) photo (buildOptions 10 photo (1600, 1200))
     = Resolved (photo \<lparr> content := replicate 204800 1 \<rparr>)
   \<and> \<not> file_size (photo \<lparr> content := replicate 204800 1 \<rparr>) < file_size photo
   \<and> map_option file (resolved (compressOne (browser (recode 204800)) 10 photo))
     = Some (photo \<lparr> content := replicate 204800 1 \<rparr>)
   \<and> content (photo \<lparr> content := replicate 204800 1 \<rparr>) \<noteq> content photo"
  by (simp add: browser_def recode_def compressOne_def photo_def file_size_def Let_def)

text \<open>
  The flag of line 125 is set exactly for the files below \<open>100 * 1024\<close> bytes. Nothing
  else in the callback depends on the size: the library is called all the same.
\<close>

lemma skipCompression_flag:
  "skipCompression (buildOptions strength f img) = Some (file_size f < 100 * 1024)"
  by (simp add: buildOptions_def Let_def)

text \<open>
  C3. A file of 50 KB is not passed through: the callback sets the flag and calls the
  library, and with a library that does not act on the flag the result is the
  re-encoded file, with other bytes than the input.
\<close>

theorem C3_small_file_reencoded:
  "file_size icon < 100 * 1024
   \<and> skipCompression (buildOptions 75 icon (1600, 1200)) = Some True
   \<and> map_option file (resolved (compressOne (browser (recode 1000)) 75 icon))
       = Some (icon \<lparr> content := replicate 1000 1 \<rparr>)
   \<and> content (icon \<lparr> content := replicate 1000 1 \<rparr>) \<noteq> content icon"
  by (simp add: browser_def recode_def compressOne_def buildOptions_def icon_def
      file_size_def Let_def)

text \<open>What a result holds: a file no larger than the input, and the stats of the two.\<close>

lemma compressOne_result:
  assumes "compressOne e strength f = Resolved r"
  shows "file_size (file r) \<le> file_size f \<and> stats r = Some (computeStats f (file r))"
  using assms by (auto simp: compressOne_def Let_def split: option.splits settle.splits)

text \<open>
  C5, as the code has it. For a result of a non-empty file below \<open>2^40\<close> bytes, the
  ratio shown is the double of \<open>(originalSize - finalSize) / originalSize * 100\<close> printed
  with one decimal, and it is within \<open>0.05\<close> of the exact ratio; the two sizes shown are
  the sizes in MB rounded to two decimals, each within \<open>0.005\<close> MB of the exact size;
  and the ratio recomputed from the two sizes shown is within \<open>0.05 + 1 / A\<close> of the
  ratio shown, \<open>A\<close> the original size in MB, hence within \<open>0.1\<close> from 20 MB on.
\<close>

theorem C5_stats:
  assumes "compressOne e strength f = Resolved r"
    and "0 < file_size f" and "file_size f < 2 ^ 40"
  shows "\<exists>st q. stats r = Some st \<and> compressionRatio st = Some q
     \<and> q = toFixed 1 (binary64 (binary64
               ((of_nat (file_size f) - of_nat (file_size (file r))) / of_nat (file_size f)) * 100))
     \<and> \<bar>q - (of_nat (file_size f) - of_nat (file_size (file r)))
                         / of_nat (file_size f) * 100\<bar> \<le> 1 / 20
     \<and> originalSize st = toFixed 2 (of_nat (file_size f) / (1024 * 1024))
     \<and> \<bar>originalSize st - of_nat (file_size f) / (1024 * 1024)\<bar> \<le> 1 / 200
     \<and> compressedSize st = toFixed 2 (of_nat (file_size (file r)) / (1024 * 1024))
     \<and> \<bar>compressedSize st - of_nat (file_size (file r)) / (1024 * 1024)\<bar> \<le> 1 / 200
     \<and> (0 < originalSize st \<longrightarrow>
          \<bar>spec_recomputedRatio st - q\<bar> \<le> 1 / 20 + 1 / (of_nat (file_size f) / (1024 * 1024)))
     \<and> (20 * 1024 * 1024 \<le> file_size f \<longrightarrow> \<bar>spec_recomputedRatio st - q\<bar> \<le> 1 / 10)"
proof -
  define a :: rat where "a = of_nat (file_size f)"
  define b :: rat where "b = of_nat (file_size (file r))"
  define A where "A = a / (1024 * 1024)"
  define B where "B = b / (1024 * 1024)"
  define d where "d = binary64 (binary64 ((a - b) / a) * 100)"
  define q where "q = toFixed 1 d"
  define st where "st = computeStats f (file r)"
  from compressOne_result [OF assms(1)]
  have le: "file_size (file r) \<le> file_size f" and st: "stats r = Some st"
    by (simp_all add: st_def)
  have a0: "0 < a" using assms(2) by (simp add: a_def)
  have b0: "0 \<le> b" by (simp add: b_def)
  have ba: "b \<le> a" using le by (simp add: a_def b_def)
  have ratio: "compressionRatio st = Some q"
    using assms(2) by (simp add: st_def computeStats_def q_def d_def a_def b_def)
  have os: "originalSize st = toFixed 2 A"
    by (simp add: st_def computeStats_def A_def a_def)
  have cs: "compressedSize st = toFixed 2 B"
    by (simp add: st_def computeStats_def B_def b_def)
  have n2: "\<And>x. \<bar>toFixed 2 x - x\<bar> \<le> 1 / 200" using toFixed_near [of 2] by simp
  have dr: "\<bar>d - (a - b) / a * 100\<bar> \<le> 201 / 2 ^ 53"
    unfolding d_def a_def b_def using assms(2) le by (rule ratio_double_close)
  obtain k :: int where k: "q = of_int k / 10" using toFixed_tenths [of d] by (auto simp: q_def)
  have "\<bar>toFixed 1 d - d\<bar> \<le> 1 / 20" using toFixed_near [of 1 d] by simp
  then have qd: "\<bar>of_int k / 10 - d\<bar> \<le> 1 / 20" by (simp add: k [symmetric] q_def)
  have "\<bar>of_int k / 10 - (of_nat (file_size f) - of_nat (file_size (file r)))
            / of_nat (file_size f) * 100\<bar> \<le> (1 / 20 :: rat)"
    using assms(2,3) qd dr [unfolded a_def b_def] by (rule tenths_near_ratio)
  then have qr: "\<bar>q - (a - b) / a * 100\<bar> \<le> 1 / 20" by (simp add: k a_def b_def)
  have AB: "(A - B) / A * 100 = (a - b) / a * 100"
    using a0 by (simp add: A_def B_def field_simps)
  have A0: "0 < A" using a0 by (simp add: A_def)
  have B0: "0 \<le> B" using b0 by (simp add: B_def)
  have BA: "B \<le> A" using ba by (simp add: A_def B_def divide_right_mono)
  have rec: "\<bar>spec_recomputedRatio st - q\<bar> \<le> 1 / 20 + 1 / A" if pos: "0 < originalSize st"
  proof -
    have "0 < toFixed 2 A" using pos by (simp add: os)
    from recomputed_close [OF A0 B0 BA this]
    have "\<bar>spec_recomputedRatio st - (A - B) / A * 100\<bar> \<le> 1 / A"
      by (simp only: spec_recomputedRatio_def os cs)
    then have "\<bar>spec_recomputedRatio st - (a - b) / a * 100\<bar> \<le> 1 / A"
      by (simp only: AB)
    with qr show ?thesis by linarith
  qed
  have big: "\<bar>spec_recomputedRatio st - q\<bar> \<le> 1 / 10" if mb: "20 * 1024 * 1024 \<le> file_size f"
  proof -
    have "rat_of_nat (20 * 1024 * 1024) \<le> of_nat (file_size f)" using mb by (simp only: of_nat_le_iff)
    then have A20: "20 \<le> A" by (simp add: A_def a_def)
    have "\<bar>toFixed 2 A - A\<bar> \<le> 1 / 200" by (rule n2)
    then have "0 < toFixed 2 A" using A20 by linarith
    then have "0 < originalSize st" by (simp only: os)
    from rec [OF this] have "\<bar>spec_recomputedRatio st - q\<bar> \<le> 1 / 20 + 1 / A" .
    moreover have "1 / A \<le> 1 / 20" using A20 by (simp add: field_simps)
    ultimately show ?thesis by linarith
  qed
  show ?thesis
    using st ratio qr os cs n2 [of A] n2 [of B] rec big
    by (simp add: q_def d_def a_def b_def A_def B_def)
qed

lemma binary64_examples [simp]:
  "binary64 (27 / 512) = 27 / 512" "binary64 (675 / 128) = 675 / 128"
  using binary64_exact [of 27 "- 9"] binary64_exact [of 675 "- 7"] by simp_all

theorem C5_stats_witness:
  "compressOne (browser (recode 97000)) 10 scan
      = Resolved \<lparr> url = ObjectURL (scan \<lparr> content := replicate 97000 1 \<rparr>),
                   file = scan \<lparr> content := replicate 97000 1 \<rparr>,
                   originalName = ''scan.png'',
                   stats = Some \<lparr> originalSize = 1 / 10, compressedSize = 9 / 100,
                                  compressionRatio = Some (53 / 10) \<rparr> \<rparr>
   \<and> 0 < file_size scan \<and> file_size scan < 2 ^ 40
   \<and> \<bar>53 / 10 - (102400 - 97000) / 102400 * 100\<bar> \<le> (1 / 20 :: rat)"
proof -
  have a: "compressOne (browser (recode 97000)) 10 scan
      = Resolved \<lparr> url = ObjectURL (scan \<lparr> content := replicate 97000 1 \<rparr>),
                   file = scan \<lparr> content := replicate 97000 1 \<rparr>,
                   originalName = ''scan.png'',
                   stats = Some \<lparr> originalSize = 1 / 10, compressedSize = 9 / 100,
                                  compressionRatio = Some (53 / 10) \<rparr> \<rparr>"
    by (simp add: browser_def recode_def compressOne_def computeStats_def toFixed_def Let_def
        scan_def file_size_def)
  have b: "0 < file_size scan" by simp
  have c: "file_size scan < 2 ^ 40" by simp
  show ?thesis using a b c C5_stats [OF a b c] by simp
qed

text \<open>
  C5 as the claim words it fails: a file of 102400 bytes compressed to 97000 bytes is
  shown with the sizes 0.10 and 0.09 and the ratio 5.3, and the ratio recomputed from
  the sizes shown is 10.
\<close>

theorem C5_counterexample:
  "map_option stats (resolved (compressOne (browser (recode 97000)) 10 scan))
     = Some (Some \<lparr> originalSize = 1 / 10, compressedSize = 9 / 100,
                     compressionRatio = Some (53 / 10) \<rparr>)
   \<and> \<not> \<bar>spec_recomputedRatio \<lparr> originalSize = 1 / 10, compressedSize = 9 / 100,
                                  compressionRatio = Some (53 / 10) \<rparr> - 53 / 10\<bar> \<le> 1 / 10"
  by (simp add: browser_def recode_def compressOne_def computeStats_def toFixed_def Let_def
        spec_recomputedRatio_def)

text \<open>
  The decimal shown is that of the double, not of the exact ratio: 204800 bytes
  compressed to 74240 bytes have the exact ratio 63.75; the double of line 138 lies just
  below it, and 63.7 is shown.
\<close>

lemma ratio_below_tie:
  "(204800 - 74240) / 204800 * 100 = (255 / 4 :: rat)
   \<and> compressionRatio (computeStats photo (photo \<lparr> content := replicate 74240 1 \<rparr>))
       = Some (637 / 10)"
proof -
  have 1: "binary64 (51 / 80) = 2871044762448691 / 4503599627370496"
    using binary64_eval [of "- 1" "51 / 80"] by (simp add: round_even_def Let_def)
  have 2: "binary64 (2871044762448691 / 4503599627370496 * 100)
             = 8972014882652159 / 140737488355328"
    using binary64_eval [of 5 "2871044762448691 / 4503599627370496 * 100"]
    by (simp add: round_even_def Let_def)
  have 3: "toFixed 1 (8972014882652159 / 140737488355328) = 637 / 10"
    by (simp add: toFixed_def)
  have "compressionRatio (computeStats photo (photo \<lparr> content := replicate 74240 1 \<rparr>))
          = Some (toFixed 1 (binary64 (binary64 (51 / 80) * 100)))"
    by (simp add: computeStats_def)
  also have "\<dots> = Some (637 / 10)" by (simp only: 1 2 3)
  finally show ?thesis by simp
qed

section \<open>The download name\<close>

lemma split_dot_ne [simp]: "split_dot n \<noteq> []"
  by (induction n) auto

lemma split_dot_nodot: "CHR ''.'' \<notin> set n \<Longrightarrow> split_dot n = [n]"
  by (induction n) auto

lemma tl_split_dot_append [simp]: "tl (split_dot (base @ CHR ''.'' # ext)) \<noteq> []"
  by (induction base) auto

lemma last_split_dot_append:
  "CHR ''.'' \<notin> set ext \<Longrightarrow> last (split_dot (base @ CHR ''.'' # ext)) = ext"
  by (induction base) (auto simp: split_dot_nodot last_tl)

lemma replace_ext_append:
  "ext \<noteq> [] \<Longrightarrow> CHR ''.'' \<notin> set ext \<Longrightarrow> CHR ''/'' \<notin> set ext
   \<Longrightarrow> replace_ext (base @ CHR ''.'' # ext) = base"
  by (induction base) (auto simp: list_all_iff)

lemma replace_ext_nodot: "CHR ''.'' \<notin> set n \<Longrightarrow> replace_ext n = n"
  by (induction n) auto

lemma downloadName_with_extension:
  "ext \<noteq> [] \<Longrightarrow> CHR ''.'' \<notin> set ext \<Longrightarrow> CHR ''/'' \<notin> set ext
   \<Longrightarrow> downloadName (base @ ''.'' @ ext) = base @ ''_jelly_image_compress'' @ ''.'' @ ext"
  by (simp add: downloadName_def replace_ext_append last_split_dot_append)

lemma downloadName_without_dot:
  "CHR ''.'' \<notin> set n \<Longrightarrow> downloadName n = n @ ''_jelly_image_compress'' @ ''.'' @ n"
  by (simp add: downloadName_def replace_ext_nodot split_dot_nodot)

text \<open>
  C9. At a file name without a dot the code does not give the base name, the suffix
  and the extension: the pattern finds nothing to cut, \<^verbatim>\<open>split('.').pop()\<close> gives the
  whole name, and the name comes out twice. (For a name \<open>base.ext\<close> the result is
  \<open>base_jelly_image_compress.ext\<close>, lemma \<open>downloadName_with_extension\<close>.)
\<close>

theorem C9_no_extension: "downloadName ''photo'' = ''photo_jelly_image_compress.photo''"
  by (simp add: downloadName_def)

section \<open>Joining the promises\<close>

lemma rejections_mem: "(t, err) \<in> set (rejections ps) \<longleftrightarrow> (t, Rejected err) \<in> set ps"
  by (induction ps rule: rejections.induct) auto

lemma earliest_mem: "earliest r rs \<in> snd ` set (r # rs)"
  by (induction r rs rule: earliest.induct) auto

lemma resolved_values_map: "resolved_values ps = Some vs \<longleftrightarrow> map snd ps = map Resolved vs"
  by (induction ps arbitrary: vs rule: resolved_values.induct) auto

lemma rejections_resolved: "map snd ps = map Resolved vs \<Longrightarrow> rejections ps = []"
  by (induction ps arbitrary: vs rule: rejections.induct) auto

lemma promise_all_resolved: "promise_all ps = Resolved vs \<longleftrightarrow> map snd ps = map Resolved vs"
proof
  assume "promise_all ps = Resolved vs"
  then have "resolved_values ps = Some vs"
    by (auto simp: promise_all_def split: list.splits option.splits)
  then show "map snd ps = map Resolved vs" by (simp add: resolved_values_map)
next
  assume a: "map snd ps = map Resolved vs"
  then have "resolved_values ps = Some vs" by (simp add: resolved_values_map)
  moreover have "rejections ps = []" using a by (rule rejections_resolved)
  ultimately show "promise_all ps = Resolved vs" by (simp add: promise_all_def)
qed

lemma promise_all_rejected:
  "promise_all ps = Rejected err \<Longrightarrow> \<exists>t. (t, Rejected err) \<in> set ps"
proof -
  assume a: "promise_all ps = Rejected err"
  then obtain r rs where rr: "rejections ps = r # rs" and e: "err = earliest r rs"
    by (auto simp: promise_all_def split: list.splits option.splits)
  from earliest_mem [of r rs] e obtain t where "(t, err) \<in> set (r # rs)" by force
  with rr have "(t, err) \<in> set (rejections ps)" by simp
  then show ?thesis by (auto simp: rejections_mem)
qed

lemma promise_all_rejects:
  "(t, Rejected err) \<in> set ps \<Longrightarrow> \<exists>err'. promise_all ps = Rejected err'"
proof -
  assume "(t, Rejected err) \<in> set ps"
  then have "(t, err) \<in> set (rejections ps)" by (simp add: rejections_mem)
  then show ?thesis by (cases "rejections ps") (auto simp: promise_all_def)
qed

lemma enumerate_outcomes:
  "map (\<lambda>x. snd (case x of (i, f) \<Rightarrow> (lat i, g f))) (enumerate n fs) = map g fs"
  by (induction fs arbitrary: n) auto

lemma compressPromises_outcomes:
  "map snd (compressPromises pipe lat strength fs) = map (pipe strength) fs"
  by (simp add: compressPromises_def enumerate_outcomes comp_def)

lemma compressPromises_image:
  "snd ` set (compressPromises pipe lat strength fs) = pipe strength ` set fs"
proof -
  have "set (map snd (compressPromises pipe lat strength fs)) = set (map (pipe strength) fs)"
    by (simp only: compressPromises_outcomes)
  then show ?thesis by (simp only: set_map)
qed

lemma compressPromises_member:
  "f \<in> set fs \<Longrightarrow> \<exists>t. (t, pipe strength f) \<in> set (compressPromises pipe lat strength fs)"
proof -
  assume "f \<in> set fs"
  then have "pipe strength f \<in> snd ` set (compressPromises pipe lat strength fs)"
    by (simp only: compressPromises_image) simp
  then show ?thesis by force
qed

lemma compressPromises_member_conv:
  "(t, x) \<in> set (compressPromises pipe lat strength fs) \<Longrightarrow> \<exists>f\<in>set fs. x = pipe strength f"
proof -
  assume "(t, x) \<in> set (compressPromises pipe lat strength fs)"
  then have "x \<in> snd ` set (compressPromises pipe lat strength fs)" by force
  then show ?thesis by (simp only: compressPromises_image) auto
qed

section \<open>The handlers\<close>

text \<open>
  C8. A click on a chip sets the strength to the value of its preset and makes the
  chips of that value, and no other, active; the presets of either variant have
  pairwise different values, so that is one chip. A move of the slider, in whatever
  state, sets the strength to the slider's value and leaves no chip active.
\<close>

theorem C8_chips:
  "compressionValue (handleChipClick v s) = v
   \<and> (\<forall>p. chipActive (handleChipClick v s) p \<longleftrightarrow> p = v)
   \<and> distinct compressionOptions \<and> distinct compressionOptionsApp
   \<and> compressionValue (handleSliderChange w t) = w
   \<and> (\<forall>p. \<not> chipActive (handleSliderChange w t) p)"
  by (auto simp: handleChipClick_def handleSliderChange_def chipActive_def
      compressionOptions_def compressionOptionsApp_def)

lemma handleFileSelect_effect:
  "files \<noteq> [] \<Longrightarrow>
     selectedFiles (handleFileSelect files s) = files
     \<and> previewUrls (handleFileSelect files s) = map ObjectURL files
     \<and> length (previewUrls (handleFileSelect files s)) = length files
     \<and> compressedUrls (handleFileSelect files s) = []
     \<and> (\<forall>i. shownResult (handleFileSelect files s) i = None)"
  by (simp add: handleFileSelect_def shownResult_def)

lemma handleFileSelect_empty: "handleFileSelect [] s = s"
  by (simp add: handleFileSelect_def)

section \<open>A batch\<close>

text \<open>
  When every callback resolves, the results are stored in the order of the files,
  whatever the times of completion, and the flag is cleared.
\<close>

lemma handleCompress_aligned:
  assumes "selectedFiles s \<noteq> []"
    and "map (pipe (compressionValue s)) (selectedFiles s) = map Resolved rs"
  shows "handleCompress_resume (handleCompress pipe lat s)
           = s \<lparr> compressedUrls := rs, isCompressing := False, awaited := None \<rparr>"
proof -
  have "promise_all (compressPromises pipe lat (compressionValue s) (selectedFiles s)) = Resolved rs"
    using assms(2) by (simp only: promise_all_resolved compressPromises_outcomes)
  then show ?thesis using assms(1) by (simp add: handleCompress_def handleCompress_resume_def)
qed

text \<open>
  When a callback rejects, the call resumes in its \<^verbatim>\<open>catch\<close>: one of the rejections is
  logged, the flag is cleared, and nothing else changes, whatever the other callbacks
  do and whatever the handlers did to the other cells in between.
\<close>

lemma batch_rejection:
  assumes "f \<in> set (selectedFiles s)" and "pipe (compressionValue s) f = Rejected err"
    and "awaited t = awaited (handleCompress pipe lat s)"
  shows "\<exists>err'. (\<exists>g\<in>set (selectedFiles s). pipe (compressionValue s) g = Rejected err')
           \<and> handleCompress_resume t
               = t \<lparr> console := console t @ [err'], isCompressing := False, awaited := None \<rparr>"
proof -
  let ?ps = "compressPromises pipe lat (compressionValue s) (selectedFiles s)"
  from assms(1,2) compressPromises_member [of f "selectedFiles s" pipe "compressionValue s" lat]
  obtain u where "(u, Rejected err) \<in> set ?ps" by auto
  from promise_all_rejects [OF this] obtain err' where r: "promise_all ?ps = Rejected err'" by blast
  from promise_all_rejected [OF r] obtain v where "(v, Rejected err') \<in> set ?ps" by blast
  from compressPromises_member_conv [OF this]
  have g: "\<exists>g\<in>set (selectedFiles s). pipe (compressionValue s) g = Rejected err'" by auto
  have ne: "selectedFiles s \<noteq> []" using assms(1) by auto
  have "awaited t = Some (Rejected err')"
    using assms(3) r ne by (simp add: handleCompress_def)
  then have "handleCompress_resume t
      = t \<lparr> console := console t @ [err'], isCompressing := False, awaited := None \<rparr>"
    by (simp add: handleCompress_resume_def)
  with g show ?thesis by blast
qed

text \<open>A batch whose promise never settles keeps the flag set under every later event.\<close>

lemma pending_batch_never_resumes:
  "awaited s = Some Pending \<Longrightarrow> isCompressing s \<Longrightarrow>
   awaited (run presets pipe s evs) = Some Pending \<and> isCompressing (run presets pipe s evs)"
proof (induction evs arbitrary: s)
  case Nil
  then show ?case by (simp add: run_def)
next
  case (Cons ev evs)
  have "awaited (step presets pipe s ev) = Some Pending \<and> isCompressing (step presets pipe s ev)"
    using Cons.prems
    by (cases ev) (simp_all add: handleFileSelect_def handleDrop_def handleChipClick_def
        handleSliderChange_def handleCompress_resume_def Let_def)
  then show ?case using Cons.IH [of "step presets pipe s ev"] by (simp add: run_def)
qed

text \<open>
  In a calm session the result list is at every moment empty or produced from the
  current selection, index by index. What breaks this is a selection made while a
  batch is in flight, and nothing else.
\<close>

lemma alignedInv_step:
  assumes "alignedInv pipe s" and "awaited s = None \<or> \<not> selects ev"
  shows "alignedInv pipe (step presets pipe s ev)"
proof (cases ev)
  case (ClickCompress lat)
  have "\<And>rs. promise_all (compressPromises pipe lat (compressionValue s) (selectedFiles s)) = Resolved rs
          \<Longrightarrow> producedFrom pipe (selectedFiles s) rs"
    unfolding producedFrom_def promise_all_resolved compressPromises_outcomes by blast
  with assms(1) show ?thesis
    by (cases "selectedFiles s = []") (auto simp: ClickCompress alignedInv_def handleCompress_def)
next
  case BatchSettles
  with assms(1) show ?thesis
    by (auto simp: alignedInv_def handleCompress_resume_def split: option.splits settle.splits)
next
  case (SelectFiles files)
  with assms show ?thesis by (simp add: alignedInv_def handleFileSelect_def)
next
  case (DropFiles files)
  with assms show ?thesis by (simp add: alignedInv_def handleFileSelect_def handleDrop_def Let_def)
next
  case (ClickChip v)
  with assms(1) show ?thesis by (simp add: alignedInv_def handleChipClick_def)
next
  case (MoveSlider v)
  with assms(1) show ?thesis by (simp add: alignedInv_def handleSliderChange_def)
qed

lemma alignedInv_run:
  "alignedInv pipe s \<Longrightarrow> calm presets pipe s evs \<Longrightarrow> alignedInv pipe (run presets pipe s evs)"
proof (induction evs arbitrary: s)
  case Nil
  then show ?case by (simp add: run_def)
next
  case (Cons ev evs)
  from Cons.prems have "alignedInv pipe (step presets pipe s ev)"
    by (intro alignedInv_step) simp_all
  with Cons.IH [of "step presets pipe s ev"] Cons.prems(2) show ?case by (simp add: run_def)
qed

lemma producedFrom_index:
  "producedFrom pipe files rs \<Longrightarrow>
     length rs = length files
     \<and> (\<exists>strength. \<forall>i<length files. pipe strength (files ! i) = Resolved (rs ! i))"
proof -
  assume "producedFrom pipe files rs"
  then obtain strength where m: "map (pipe strength) files = map Resolved rs"
    by (auto simp: producedFrom_def)
  then have l: "length rs = length files" by (metis length_map)
  have "\<forall>i<length files. pipe strength (files ! i) = Resolved (rs ! i)"
  proof (intro allI impI)
    fix i assume i: "i < length files"
    then have "map (pipe strength) files ! i = map Resolved rs ! i" using m by simp
    then show "pipe strength (files ! i) = Resolved (rs ! i)" using i l by simp
  qed
  with l show ?thesis by blast
qed

lemma calm_sessions_aligned:
  assumes "calm presets pipe initialState evs"
  shows "compressedUrls (run presets pipe initialState evs) = []
         \<or> (length (compressedUrls (run presets pipe initialState evs))
              = length (selectedFiles (run presets pipe initialState evs))
            \<and> (\<exists>strength. \<forall>i<length (selectedFiles (run presets pipe initialState evs)).
                  pipe strength (selectedFiles (run presets pipe initialState evs) ! i)
                    = Resolved (compressedUrls (run presets pipe initialState evs) ! i)))"
proof -
  have "alignedInv pipe initialState" by (simp add: alignedInv_def initialState_def)
  from alignedInv_run [OF this assms]
  show ?thesis using producedFrom_index by (auto simp: alignedInv_def)
qed

section \<open>Three sessions\<close>

text \<open>
  With the library that takes JPEG only, the second variant fails the batch of
  \<open>rejected_batch\<close>: the error is logged, no result is stored, the flag is cleared.
\<close>

lemma rejected_batch_fails:
  "console (run compressionOptionsApp (compressOneApp (browser jpeg_only)) initialStateApp
      rejected_batch) = [Error ''unsupported'']
   \<and> compressedUrls (run compressionOptionsApp (compressOneApp (browser jpeg_only))
      initialStateApp rejected_batch) = []
   \<and> \<not> isCompressing (run compressionOptionsApp (compressOneApp (browser jpeg_only))
      initialStateApp rejected_batch)"
  by (simp add: run_def rejected_batch_def initialState_def initialStateApp_def
      handleFileSelect_def handleCompress_def handleCompress_resume_def promise_all_def
      compressPromises_def compressOneApp_def browser_def jpeg_only_def recode_def
      photo_def icon_def)

text \<open>
  C6. In the session \<open>reselect_in_flight\<close> the result list ends up with the two
  results of the replaced selection next to a selection of one file: it is neither empty
  nor as long as the list of source images, and its first entry was not produced from
  the first image selected.
\<close>

theorem C6_results_of_replaced_selection:
  "map name (selectedFiles
      (run compressionOptions (compressOne (browser (recode 1000))) initialState reselect_in_flight))
     = [''icon.png'']
   \<and> map originalName (compressedUrls
      (run compressionOptions (compressOne (browser (recode 1000))) initialState reselect_in_flight))
     = [''photo.jpg'', ''scan.png'']
   \<and> length (compressedUrls
      (run compressionOptions (compressOne (browser (recode 1000))) initialState reselect_in_flight))
     \<noteq> length (selectedFiles
      (run compressionOptions (compressOne (browser (recode 1000))) initialState reselect_in_flight))"
  by (simp add: run_def reselect_in_flight_def initialState_def handleFileSelect_def
      handleCompress_def handleCompress_resume_def promise_all_def compressPromises_def
      compressOne_def browser_def recode_def Let_def photo_def scan_def icon_def)

text \<open>The second variant has the same handlers and ends in the same way.\<close>

lemma reselect_in_flight_App:
  "map name (selectedFiles
      (run compressionOptionsApp (compressOneApp (browser (recode 1000))) initialStateApp
         reselect_in_flight))
     = [''icon.png'']
   \<and> map originalName (compressedUrls
      (run compressionOptionsApp (compressOneApp (browser (recode 1000))) initialStateApp
         reselect_in_flight))
     = [''photo.jpg'', ''scan.png'']"
  by (simp add: run_def reselect_in_flight_def initialState_def initialStateApp_def
      handleFileSelect_def handleCompress_def handleCompress_resume_def promise_all_def
      compressPromises_def compressOneApp_def browser_def recode_def photo_def scan_def icon_def)

text \<open>
  C10. In the same session the selection of the new file does empty the result list,
  and the batch that was in flight then fills it again: the card of \<open>icon.png\<close> shows
  the result of \<open>photo.jpg\<close>.
\<close>

theorem C10_stale_result_shown:
  "compressedUrls
      (run compressionOptions (compressOne (browser (recode 1000))) initialState
         [SelectFiles [photo, scan], ClickCompress id, SelectFiles [icon]]) = []
   \<and> map_option originalName (shownResult
      (run compressionOptions (compressOne (browser (recode 1000))) initialState reselect_in_flight) 0)
     = Some ''photo.jpg''
   \<and> name (selectedFiles
      (run compressionOptions (compressOne (browser (recode 1000))) initialState reselect_in_flight) ! 0)
     = ''icon.png''"
  by (simp add: run_def reselect_in_flight_def initialState_def handleFileSelect_def
      handleCompress_def handleCompress_resume_def promise_all_def compressPromises_def
      compressOne_def browser_def recode_def Let_def photo_def scan_def icon_def shownResult_def)

text \<open>
  C7. In the session \<open>broken_batch\<close> of the first variant, one image cannot be decoded:
  its callback never settles, so the batch never settles; nothing is logged and the
  flag stays set. (A callback that rejects does fail the batch as claimed, lemma
  \<open>batch_rejection\<close>.)
\<close>

theorem C7_undecodable_image_hangs:
  "isCompressing
      (run compressionOptions (compressOne (undecodable broken (browser (recode 1000))))
         initialState broken_batch)
   \<and> console
      (run compressionOptions (compressOne (undecodable broken (browser (recode 1000))))
         initialState broken_batch) = []
   \<and> awaited
      (run compressionOptions (compressOne (undecodable broken (browser (recode 1000))))
         initialState broken_batch) = Some Pending"
  by (simp add: run_def broken_batch_def initialState_def handleFileSelect_def
      handleCompress_def handleCompress_resume_def promise_all_def compressPromises_def
      compressOne_def browser_def undecodable_def recode_def Let_def photo_def broken_def)

end
